theory Spec2Isabelle
  imports Main "HOL-Library.Sublist"
begin

section \<open>Strings\<close>

text \<open>
  Python strings are modelled as \<^typ>\<open>string\<close>, one \<^typ>\<open>char\<close> per character, so
  the characters are the code points below 256. The program uses four string
  operations: \<^verbatim>\<open>sub in s\<close>, \<^verbatim>\<open>s.lower()\<close>, \<^verbatim>\<open>s.strip()\<close> and
  \<^verbatim>\<open>s.split("/")[-1]\<close>. Lower-casing is modelled on the ASCII letters; no other
  character lower-cases to a letter of \<^verbatim>\<open>chancery\<close> or \<^verbatim>\<open>.pdf\<close>, the only two
  needles looked for in a lower-cased string. Stripping removes the characters for
  which \<^verbatim>\<open>str.isspace\<close> holds: codes 9 to 13, 28 to 32, 133 and 160.
\<close>

definition lower_char :: "char \<Rightarrow> char" where
  "lower_char c =
     (case map_of (zip ''ABCDEFGHIJKLMNOPQRSTUVWXYZ'' ''abcdefghijklmnopqrstuvwxyz'') c of
        None \<Rightarrow> c
      | Some d \<Rightarrow> d)"

definition str_lower :: "string \<Rightarrow> string" where
  "str_lower s = map lower_char s"

fun str_contains :: "string \<Rightarrow> string \<Rightarrow> bool" where
  "str_contains sub [] = (sub = [])"
| "str_contains sub (c # cs) = (prefix sub (c # cs) \<or> str_contains sub cs)"

definition is_space :: "char \<Rightarrow> bool" where
  "is_space c \<longleftrightarrow>
     c \<in> set [CHR 0x09, CHR 0x0A, CHR 0x0B, CHR 0x0C, CHR 0x0D,
              CHR 0x1C, CHR 0x1D, CHR 0x1E, CHR 0x1F, CHR 0x20, CHR 0x85, CHR 0xA0]"

definition str_strip :: "string \<Rightarrow> string" where
  "str_strip s = rev (dropWhile is_space (rev (dropWhile is_space s)))"

definition last_segment :: "string \<Rightarrow> string" where
  "last_segment s = rev (takeWhile (\<lambda>c. c \<noteq> CHR ''/'') (rev s))"

section \<open>Opinion records and the seen-set diff\<close>

text \<open>
  An opinion is the dictionary \<^verbatim>\<open>{"title": ..., "url": ..., "date_found": ...}\<close> built
  by the scraper and stored in \<^verbatim>\<open>seen_opinions.json\<close>.
\<close>

record opinion =
  title :: string
  url :: string
  date_found :: string

text \<open>
  \<^verbatim>\<open>seen_urls = {op["url"] for op in seen_opinions}\<close> and
  \<^verbatim>\<open>new_opinions = [op for op in current_opinions if op["url"] not in seen_urls]\<close>,
  the two lines of \<^verbatim>\<open>main\<close> that form the diff step.
\<close>

definition seen_urls :: "opinion list \<Rightarrow> string set" where
  "seen_urls seen_opinions = set (map url seen_opinions)"

definition new_opinions :: "opinion list \<Rightarrow> string set \<Rightarrow> opinion list" where
  "new_opinions current_opinions urls = [op \<leftarrow> current_opinions. url op \<notin> urls]"

definition diff :: "opinion list \<Rightarrow> opinion list \<Rightarrow> opinion list" where
  "diff candidates seen = new_opinions candidates (seen_urls seen)"

section \<open>The outside world\<close>

text \<open>
  \<^verbatim>\<open>main\<close> ends either by an uncaught exception or by one of its three final console
  lines: \<^verbatim>\<open>No new opinions found\<close>, \<^verbatim>\<open>Failed to send email\<close>,
  \<^verbatim>\<open>Successfully processed new opinions\<close>.
\<close>

datatype exn = JSONDecodeError | WebDriverException | OSError | UnicodeDecodeError

datatype outcome = Crashed exn | Skipped | NotifyFailed | Persisted

text \<open>
  The \<^verbatim>\<open>json\<close> library is not part of the repository. It enters as a parameter:
  \<^verbatim>\<open>json.dump(opinions, f, indent=2)\<close> produces the text written to the file, and
  \<^verbatim>\<open>json.load(f)\<close> either returns a record list or raises (\<open>None\<close>). For
  \<^verbatim>\<open>main\<close> the state file is an array of objects with the three string fields, as
  \<^verbatim>\<open>save_seen_opinions\<close> writes it; \<^verbatim>\<open>load_seen_opinions\<close> itself is modelled for
  decoded values of any type.
\<close>

record codec =
  json_dump :: "opinion list \<Rightarrow> string"
  json_load :: "string \<Rightarrow> opinion list option"

record message =
  msg_from :: string
  msg_to :: string
  subject :: string
  body :: string
  attachments :: "(string \<times> string) list"

text \<open>
  The effects a run has on the outside are recorded in order: a download attempt for a
  url with its success, a call of \<^verbatim>\<open>send_email\<close> with the message composed and the
  value returned, a write of the record list to the store. Console output is left out.
\<close>

datatype event = Fetch string bool | Send message bool | Save "opinion list"

text \<open>
  The file system as the program sees it: the text of \<^verbatim>\<open>seen_opinions.json\<close>
  (\<open>None\<close> when the file does not exist) and the files by path.
\<close>

record world =
  seen_file :: "string option"
  files :: "string \<rightharpoonup> string"
  trace :: "event list"

text \<open>
  An anchor element of the rendered page: its \<^verbatim>\<open>href\<close> (\<open>None\<close> when it has none),
  its visible text, and whether reading it raises (an element gone stale). The
  \<^verbatim>\<open>href\<close> is the target as the browser reports it; the XPath query is taken to test
  the same string.
\<close>

record anchor =
  link_href :: "string option"
  link_text :: string
  stale :: bool

text \<open>
  The browser session: which of the driver calls raise, and the anchors of the
  rendered page in document order.
\<close>

record browser =
  launch_raises :: bool
  get_raises :: bool
  xpath_raises :: bool
  tag_raises :: bool
  quit_raises :: bool
  dom :: "anchor list"

text \<open>
  What a run cannot control: the browser, the time stamps read by
  \<^verbatim>\<open>datetime.now().isoformat()\<close> (the k-th record appended gets \<open>clock k\<close>), the
  date of the subject line, the mail configuration, the outcome of the guarded block of
  \<^verbatim>\<open>download_pdf\<close> for a url (the bytes received, or \<open>None\<close> when anything in it
  raises), and whether the mail transport accepts a message.
\<close>

record env =
  browser :: browser
  clock :: "nat \<Rightarrow> string"
  today :: string
  email_from :: string
  email_to :: string
  http_get :: "string \<Rightarrow> string option"
  smtp_accepts :: "message \<Rightarrow> bool"

section \<open>Seen-set store\<close>

text \<open>
  What the file system answers when \<^verbatim>\<open>load_seen_opinions\<close> looks for the state file:
  \<^verbatim>\<open>Path(SEEN_OPINIONS_FILE).exists()\<close> is false; the path exists but \<^verbatim>\<open>open\<close>, or
  the read that \<^verbatim>\<open>json.load\<close> makes of the file, raises (a directory or a file without
  read permission: \<^verbatim>\<open>OSError\<close>; bytes that are no text in the encoding:
  \<^verbatim>\<open>UnicodeDecodeError\<close>); or the text of the file is read.
\<close>

datatype access = Absent | Fails exn | Text string

text \<open>
  The body of \<^verbatim>\<open>load_seen_opinions\<close>, for any such answer and for decoded values
  of any type: \<open>parse\<close> is \<^verbatim>\<open>json.load\<close> on the text (\<open>None\<close> when it raises its
  parse error) and \<open>nil\<close> is the value of \<^verbatim>\<open>[]\<close>. The function has no handler and
  checks no shape.
\<close>

definition load_from :: "(string \<Rightarrow> 'v option) \<Rightarrow> 'v \<Rightarrow> access \<Rightarrow> exn + 'v" where
  "load_from parse nil a =
     (case a of
        Absent \<Rightarrow> Inr nil
      | Fails x \<Rightarrow> Inl x
      | Text t \<Rightarrow> (case parse t of None \<Rightarrow> Inl JSONDecodeError | Some v \<Rightarrow> Inr v))"

text \<open>
  In the worlds of this development the state file is a regular text file that can be
  read, or it does not exist.
\<close>

definition access_of :: "world \<Rightarrow> access" where
  "access_of w = (case seen_file w of None \<Rightarrow> Absent | Some t \<Rightarrow> Text t)"

definition load_seen_opinions :: "codec \<Rightarrow> world \<Rightarrow> exn + opinion list" where
  "load_seen_opinions c w = load_from (json_load c) [] (access_of w)"

definition save_seen_opinions :: "codec \<Rightarrow> opinion list \<Rightarrow> world \<Rightarrow> world" where
  "save_seen_opinions c opinions w =
     w\<lparr>seen_file := Some (json_dump c opinions), trace := trace w @ [Save opinions]\<rparr>"

section \<open>Page renderer\<close>

text \<open>
  \<^verbatim>\<open>href = link.get_attribute("href"); text = link.text.strip()\<close> inside the inner
  \<^verbatim>\<open>try\<close>: \<open>None\<close> when either read raises.
\<close>

definition read_link :: "anchor \<Rightarrow> (string option \<times> string) option" where
  "read_link link = (if stale link then None else Some (link_href link, str_strip (link_text link)))"

definition truthy :: "string option \<Rightarrow> bool" where
  "truthy h = (case h of None \<Rightarrow> False | Some s \<Rightarrow> s \<noteq> [])"

definition target :: "string option \<Rightarrow> string" where
  "target h = (case h of None \<Rightarrow> [] | Some s \<Rightarrow> s)"

text \<open>
  \<^verbatim>\<open>opinions.append({"title": text, "url": href, "date_found": datetime.now().isoformat()})\<close>
\<close>

definition found :: "(nat \<Rightarrow> string) \<Rightarrow> opinion list \<Rightarrow> string \<Rightarrow> string \<Rightarrow> opinion list" where
  "found now opinions t h =
     opinions @ [\<lparr>title = t, url = h, date_found = now (length opinions)\<rparr>]"

text \<open>The first loop, over the result of the XPath query.\<close>

fun primary_loop :: "(nat \<Rightarrow> string) \<Rightarrow> anchor list \<Rightarrow> opinion list \<Rightarrow> opinion list" where
  "primary_loop now [] opinions = opinions"
| "primary_loop now (link # links) opinions =
     (case read_link link of
        None \<Rightarrow> primary_loop now links opinions
      | Some (href, t) \<Rightarrow>
          if truthy href \<and> t \<noteq> [] \<and> str_contains ''chancery'' (str_lower (target href))
          then primary_loop now links (found now opinions t (target href))
          else primary_loop now links opinions)"

text \<open>The second loop, over every anchor of the page.\<close>

fun fallback_loop :: "(nat \<Rightarrow> string) \<Rightarrow> anchor list \<Rightarrow> opinion list \<Rightarrow> opinion list" where
  "fallback_loop now [] opinions = opinions"
| "fallback_loop now (link # links) opinions =
     (case read_link link of
        None \<Rightarrow> fallback_loop now links opinions
      | Some (href, t) \<Rightarrow>
          if truthy href \<and> str_contains ''.pdf'' (str_lower (target href)) \<and> t \<noteq> []
          then fallback_loop now links (found now opinions t (target href))
          else fallback_loop now links opinions)"

text \<open>\<^verbatim>\<open>driver.find_elements(By.XPATH, "//a[contains(@href, '.pdf')]")\<close>\<close>

definition find_pdf_links :: "anchor list \<Rightarrow> anchor list" where
  "find_pdf_links anchors =
     [a \<leftarrow> anchors. case link_href a of None \<Rightarrow> False | Some h \<Rightarrow> str_contains ''.pdf'' h]"

text \<open>
  The body of the outer \<^verbatim>\<open>try\<close>. An exception of \<^verbatim>\<open>driver.get\<close> or of either
  \<^verbatim>\<open>find_elements\<close> ends the block in the handler, which prints; the list built so
  far is what the function goes on to return.
\<close>

definition scrape_body :: "browser \<Rightarrow> (nat \<Rightarrow> string) \<Rightarrow> opinion list" where
  "scrape_body b now =
     (let opinions = [] in
      if get_raises b then opinions
      else if xpath_raises b then opinions
      else
        (let opinions = primary_loop now (find_pdf_links (dom b)) opinions in
         if length opinions = 0
         then (if tag_raises b then opinions else fallback_loop now (dom b) opinions)
         else opinions))"

text \<open>
  \<^verbatim>\<open>setup_driver()\<close> is called before the \<^verbatim>\<open>try\<close>, and \<^verbatim>\<open>driver.quit()\<close> in the
  \<^verbatim>\<open>finally\<close> clause: an exception of either leaves the function.
\<close>

definition scrape_chancery_opinions :: "browser \<Rightarrow> (nat \<Rightarrow> string) \<Rightarrow> exn + opinion list" where
  "scrape_chancery_opinions b now =
     (if launch_raises b then Inl WebDriverException
      else
        (let opinions = scrape_body b now in
         if quit_raises b then Inl WebDriverException else Inr opinions))"

section \<open>Fetcher\<close>

text \<open>\<^verbatim>\<open>Path("downloads") / filename\<close>, for a file name without a slash.\<close>

definition path_join :: "string \<Rightarrow> string \<Rightarrow> string" where
  "path_join d filename = (if filename = [] \<or> filename = ''.'' then d else d @ ''/'' @ filename)"

definition download_pdf :: "env \<Rightarrow> string \<Rightarrow> string \<Rightarrow> world \<Rightarrow> string option \<times> world" where
  "download_pdf e u filename w =
     (case http_get e u of
        None \<Rightarrow> (None, w\<lparr>trace := trace w @ [Fetch u False]\<rparr>)
      | Some content \<Rightarrow>
          (let filepath = path_join ''downloads'' filename in
           (Some filepath,
            w\<lparr>files := (files w)(filepath \<mapsto> content), trace := trace w @ [Fetch u True]\<rparr>)))"

text \<open>The download loop of \<^verbatim>\<open>main\<close>.\<close>

fun download_loop :: "env \<Rightarrow> opinion list \<Rightarrow> string list \<Rightarrow> world \<Rightarrow> string list \<times> world" where
  "download_loop e [] pdf_paths w = (pdf_paths, w)"
| "download_loop e (opinion # rest) pdf_paths w =
     (let filename = last_segment (url opinion) in
      case download_pdf e (url opinion) filename w of
        (None, w') \<Rightarrow> download_loop e rest pdf_paths w'
      | (Some pdf_path, w') \<Rightarrow> download_loop e rest (pdf_paths @ [pdf_path]) w')"

section \<open>Notifier\<close>

definition digit_char :: "nat \<Rightarrow> char" where
  "digit_char d = ''0123456789'' ! d"

fun str_nat :: "nat \<Rightarrow> string" where
  "str_nat n = (if n < 10 then [digit_char n] else str_nat (n div 10) @ [digit_char (n mod 10)])"

definition nl :: char where
  "nl = CHR 0x0A"

text \<open>The line of the message body for one record.\<close>

definition body_line :: "opinion \<Rightarrow> string" where
  "body_line opinion = ''- '' @ title opinion @ [nl] @ ''  '' @ url opinion @ [nl, nl]"

definition email_body :: "opinion list \<Rightarrow> string" where
  "email_body opinions =
     ''Found '' @ str_nat (length opinions) @ '' new opinion(s):'' @ [nl, nl] @
     concat (map body_line opinions)"

fun attach_loop :: "(string \<rightharpoonup> string) \<Rightarrow> string list \<Rightarrow> (string \<times> string) list \<Rightarrow> (string \<times> string) list" where
  "attach_loop fs [] atts = atts"
| "attach_loop fs (pdf_path # rest) atts =
     (case fs pdf_path of
        None \<Rightarrow> attach_loop fs rest atts
      | Some content \<Rightarrow> attach_loop fs rest (atts @ [(last_segment pdf_path, content)]))"

definition compose :: "env \<Rightarrow> opinion list \<Rightarrow> string list \<Rightarrow> world \<Rightarrow> message" where
  "compose e opinions pdf_paths w =
     \<lparr>msg_from = email_from e, msg_to = email_to e,
      subject = ''New Delaware Court of Chancery Opinions - '' @ today e,
      body = email_body opinions,
      attachments = attach_loop (files w) pdf_paths []\<rparr>"

definition send_email :: "env \<Rightarrow> opinion list \<Rightarrow> string list \<Rightarrow> world \<Rightarrow> bool \<times> world" where
  "send_email e opinions pdf_paths w =
     (let msg = compose e opinions pdf_paths w;
          sent = smtp_accepts e msg
      in (sent, w\<lparr>trace := trace w @ [Send msg sent]\<rparr>))"

section \<open>Orchestrator\<close>

text \<open>
  \<^verbatim>\<open>main\<close> in two parts: \<open>process\<close> is its last statement, the
  \<^verbatim>\<open>if new_opinions: ... else: ...\<close> that follows the diff;
  \<^verbatim>\<open>seen_opinions.extend(new_opinions)\<close> makes the list that is saved.
\<close>

definition process :: "codec \<Rightarrow> env \<Rightarrow> opinion list \<Rightarrow> opinion list \<Rightarrow> world \<Rightarrow> outcome \<times> world" where
  "process c e seen_opinions new w =
     (if new \<noteq> [] then
        (case download_loop e new [] w of
           (pdf_paths, w1) \<Rightarrow>
             (case send_email e new pdf_paths w1 of
                (True, w2) \<Rightarrow> (Persisted, save_seen_opinions c (seen_opinions @ new) w2)
              | (False, w2) \<Rightarrow> (NotifyFailed, w2)))
      else (Skipped, w))"

text \<open>
  \<^verbatim>\<open>main\<close> for any answer \<open>a\<close> of the file system to the load; nothing catches what
  \<^verbatim>\<open>load_seen_opinions\<close> or \<^verbatim>\<open>scrape_chancery_opinions\<close> lets through.
\<close>

definition main_from :: "codec \<Rightarrow> env \<Rightarrow> access \<Rightarrow> world \<Rightarrow> outcome \<times> world" where
  "main_from c e a w =
     (case load_from (json_load c) [] a of
        Inl x \<Rightarrow> (Crashed x, w)
      | Inr seen_opinions \<Rightarrow>
          (case scrape_chancery_opinions (browser e) (clock e) of
             Inl x \<Rightarrow> (Crashed x, w)
           | Inr current_opinions \<Rightarrow>
               process c e seen_opinions (diff current_opinions seen_opinions) w))"

definition main :: "codec \<Rightarrow> env \<Rightarrow> world \<Rightarrow> outcome \<times> world" where
  "main c e w = main_from c e (access_of w) w"

section \<open>Observing a run\<close>

text \<open>The events a run added to the trace.\<close>

definition new_events :: "world \<Rightarrow> world \<Rightarrow> event list" where
  "new_events w w' = drop (length (trace w)) (trace w')"

text \<open>
  The diffed set of a run: \<open>None\<close> when the run ends by an exception before the
  diff step.
\<close>

definition diffed :: "codec \<Rightarrow> env \<Rightarrow> world \<Rightarrow> opinion list option" where
  "diffed c e w =
     (case load_seen_opinions c w of
        Inl x \<Rightarrow> None
      | Inr seen_opinions \<Rightarrow>
          (case scrape_chancery_opinions (browser e) (clock e) of
             Inl x \<Rightarrow> None
           | Inr current_opinions \<Rightarrow> Some (diff current_opinions seen_opinions)))"

text \<open>Whether the download of a record succeeds, the bytes it yields, where they are stored.\<close>

definition fetched :: "env \<Rightarrow> opinion \<Rightarrow> bool" where
  "fetched e r \<longleftrightarrow> http_get e (url r) \<noteq> None"

definition fetched_bytes :: "env \<Rightarrow> opinion \<Rightarrow> string" where
  "fetched_bytes e r = (case http_get e (url r) of None \<Rightarrow> [] | Some content \<Rightarrow> content)"

definition local_path :: "opinion \<Rightarrow> string" where
  "local_path r = path_join ''downloads'' (last_segment (url r))"

definition fetch_event :: "env \<Rightarrow> opinion \<Rightarrow> event" where
  "fetch_event e r = Fetch (url r) (fetched e r)"

text \<open>The file system after the downloads of a batch, in order.\<close>

fun stored :: "env \<Rightarrow> opinion list \<Rightarrow> (string \<rightharpoonup> string) \<Rightarrow> (string \<rightharpoonup> string)" where
  "stored e [] fs = fs"
| "stored e (r # rs) fs =
     stored e rs (case http_get e (url r) of None \<Rightarrow> fs | Some content \<Rightarrow> fs(local_path r \<mapsto> content))"

text \<open>The world after the downloads of a batch, and the message then composed.\<close>

definition after_downloads :: "env \<Rightarrow> opinion list \<Rightarrow> world \<Rightarrow> world" where
  "after_downloads e new w =
     w\<lparr>files := stored e new (files w), trace := trace w @ map (fetch_event e) new\<rparr>"

definition batch_message :: "env \<Rightarrow> opinion list \<Rightarrow> world \<Rightarrow> message" where
  "batch_message e new w =
     compose e new (map local_path (filter (fetched e) new)) (after_downloads e new w)"

text \<open>The attachment lists of the messages handed to the notifier, in order.\<close>

fun sent_attachments :: "event list \<Rightarrow> (string \<times> string) list list" where
  "sent_attachments [] = []"
| "sent_attachments (Send m ok # evs) = attachments m # sent_attachments evs"
| "sent_attachments (ev # evs) = sent_attachments evs"

section \<open>The extraction policy in the words of the specification\<close>

text \<open>The anchors that can be read.\<close>

definition readable :: "anchor list \<Rightarrow> anchor list" where
  "readable anchors = [a \<leftarrow> anchors. \<not> stale a]"

text \<open>
  Primary policy: the target contains \<^verbatim>\<open>.pdf\<close>, contains \<^verbatim>\<open>chancery\<close> without
  regard to case, and the visible text is not empty. Fallback policy: the target
  contains \<^verbatim>\<open>.pdf\<close> without regard to case and the visible text is not empty.
\<close>

definition spec_primary :: "anchor \<Rightarrow> bool" where
  "spec_primary a \<longleftrightarrow>
     str_contains ''.pdf'' (target (link_href a)) \<and>
     str_contains ''chancery'' (str_lower (target (link_href a))) \<and>
     str_strip (link_text a) \<noteq> []"

definition spec_fallback :: "anchor \<Rightarrow> bool" where
  "spec_fallback a \<longleftrightarrow>
     str_contains ''.pdf'' (str_lower (target (link_href a))) \<and> str_strip (link_text a) \<noteq> []"

definition spec_keep :: "anchor list \<Rightarrow> anchor list" where
  "spec_keep anchors =
     (if filter spec_primary anchors \<noteq> [] then filter spec_primary anchors
      else filter spec_fallback anchors)"

text \<open>The records made of the kept anchors, the k-th stamped with the k-th time read.\<close>

fun spec_records :: "(nat \<Rightarrow> string) \<Rightarrow> nat \<Rightarrow> anchor list \<Rightarrow> opinion list" where
  "spec_records now k [] = []"
| "spec_records now k (a # as) =
     \<lparr>title = str_strip (link_text a), url = target (link_href a), date_found = now k\<rparr>
       # spec_records now (Suc k) as"

section \<open>Sequences of runs\<close>

text \<open>
  The stores that runs can produce from the empty store, each run in an environment
  that satisfies \<open>P\<close>.
\<close>

inductive reachable :: "(env \<Rightarrow> bool) \<Rightarrow> codec \<Rightarrow> world \<Rightarrow> bool" for P c where
  reachable_init: "seen_file w = None \<Longrightarrow> reachable P c w"
| reachable_run: "reachable P c w \<Longrightarrow> P e \<Longrightarrow> main c e w = (out, w') \<Longrightarrow> reachable P c w'"

definition any_env :: "env \<Rightarrow> bool" where
  "any_env e \<longleftrightarrow> True"

text \<open>The page of a run shows no url twice among its candidates.\<close>

definition distinct_candidates :: "env \<Rightarrow> bool" where
  "distinct_candidates e \<longleftrightarrow>
     (case scrape_chancery_opinions (browser e) (clock e) of
        Inl x \<Rightarrow> True
      | Inr current_opinions \<Rightarrow> distinct (map url current_opinions))"

text \<open>The decoder of the library reads back what its encoder wrote.\<close>

definition inverts :: "codec \<Rightarrow> bool" where
  "inverts c \<longleftrightarrow> (\<forall>xs. json_load c (json_dump c xs) = Some xs)"

section \<open>A concrete codec\<close>

text \<open>
  An instance of the library parameter in the layout \<^verbatim>\<open>json.dump(..., indent=2)\<close>
  gives a list of three-field objects. Strings are quoted with a backslash before each
  quote and backslash; the reader accepts exactly this layout.
\<close>

definition dq :: char where
  "dq = CHR 0x22"

definition bs :: char where
  "bs = CHR 0x5C"

definition quote_char :: "char \<Rightarrow> string" where
  "quote_char c = (if c = dq \<or> c = bs then [bs, c] else [c])"

definition quote_str :: "string \<Rightarrow> string" where
  "quote_str s = dq # concat (map quote_char s) @ [dq]"

definition key_prefix :: "string \<Rightarrow> string" where
  "key_prefix k = ''    '' @ quote_str k @ '': ''"

definition dump_record :: "opinion \<Rightarrow> string" where
  "dump_record r =
     ''  {'' @ [nl] @ key_prefix ''title'' @ quote_str (title r) @ '','' @ [nl] @
     key_prefix ''url'' @ quote_str (url r) @ '','' @ [nl] @
     key_prefix ''date_found'' @ quote_str (date_found r) @ [nl] @ ''  }''"

fun dump_records :: "opinion list \<Rightarrow> string" where
  "dump_records [] = []"
| "dump_records [r] = dump_record r"
| "dump_records (r # rs) = dump_record r @ '','' @ [nl] @ dump_records rs"

definition plain_dump :: "opinion list \<Rightarrow> string" where
  "plain_dump xs = (if xs = [] then ''[]'' else ''['' @ [nl] @ dump_records xs @ [nl] @ '']'')"

definition expect :: "string \<Rightarrow> string \<Rightarrow> string option" where
  "expect p s = (if prefix p s then Some (drop (length p) s) else None)"

fun unquote_body :: "string \<Rightarrow> (string \<times> string) option" where
  "unquote_body [] = None"
| "unquote_body (c # cs) =
     (if c = dq then Some ([], cs)
      else if c = bs then
        (case cs of
           [] \<Rightarrow> None
         | d # ds \<Rightarrow> map_option (\<lambda>(s, rest). (d # s, rest)) (unquote_body ds))
      else map_option (\<lambda>(s, rest). (c # s, rest)) (unquote_body cs))"

definition unquote_str :: "string \<Rightarrow> (string \<times> string) option" where
  "unquote_str s = (case s of [] \<Rightarrow> None | c # cs \<Rightarrow> if c = dq then unquote_body cs else None)"

definition parse_field :: "string \<Rightarrow> string \<Rightarrow> (string \<times> string) option" where
  "parse_field k s = Option.bind (expect (key_prefix k) s) unquote_str"

definition parse_record :: "string \<Rightarrow> (opinion \<times> string) option" where
  "parse_record s =
     Option.bind (expect (''  {'' @ [nl]) s) (\<lambda>s1.
     Option.bind (parse_field ''title'' s1) (\<lambda>(t, s2).
     Option.bind (expect ('','' @ [nl]) s2) (\<lambda>s3.
     Option.bind (parse_field ''url'' s3) (\<lambda>(u, s4).
     Option.bind (expect ('','' @ [nl]) s4) (\<lambda>s5.
     Option.bind (parse_field ''date_found'' s5) (\<lambda>(d, s6).
     Option.bind (expect ([nl] @ ''  }'') s6) (\<lambda>s7.
     Some (\<lparr>title = t, url = u, date_found = d\<rparr>, s7))))))))"

fun parse_records :: "nat \<Rightarrow> string \<Rightarrow> opinion list option" where
  "parse_records 0 s = None"
| "parse_records (Suc n) s =
     Option.bind (parse_record s) (\<lambda>(r, rest).
       if rest = [nl] @ '']'' then Some [r]
       else Option.bind (expect ('','' @ [nl]) rest) (\<lambda>rest'.
              map_option ((#) r) (parse_records n rest')))"

definition plain_load :: "string \<Rightarrow> opinion list option" where
  "plain_load s =
     (if s = ''[]'' then Some []
      else Option.bind (expect (''['' @ [nl]) s) (\<lambda>s'. parse_records (length s') s'))"

definition plain_codec :: codec where
  "plain_codec = \<lparr>json_dump = plain_dump, json_load = plain_load\<rparr>"

section \<open>Concrete runs\<close>

definition fresh :: world where
  "fresh = \<lparr>seen_file = None, files = Map.empty, trace = []\<rparr>"

definition demo_clock :: "nat \<Rightarrow> string" where
  "demo_clock k = ''2024-05-01T09:00:0'' @ str_nat k"

definition accept_all :: "message \<Rightarrow> bool" where
  "accept_all m \<longleftrightarrow> True"

definition page_of :: "anchor list \<Rightarrow> browser" where
  "page_of anchors =
     \<lparr>launch_raises = False, get_raises = False, xpath_raises = False, tag_raises = False,
      quit_raises = False, dom = anchors\<rparr>"

definition env_of :: "browser \<Rightarrow> (string \<Rightarrow> string option) \<Rightarrow> env" where
  "env_of b get =
     \<lparr>browser = b, clock = demo_clock, today = ''2024-05-01'',
      email_from = ''monitor@example.org'', email_to = ''clerk@example.org'',
      http_get = get, smtp_accepts = accept_all\<rparr>"

definition link_x :: anchor where
  "link_x = \<lparr>link_href = Some ''https://courts.delaware.gov/Opinions/Chancery/x.pdf'',
            link_text = '' In re X '', stale = False\<rparr>"

definition link_y :: anchor where
  "link_y = \<lparr>link_href = Some ''https://courts.delaware.gov/Opinions/Chancery/y.pdf'',
            link_text = ''In re Y'', stale = False\<rparr>"

definition link_gone :: anchor where
  "link_gone = \<lparr>link_href = Some ''https://courts.delaware.gov/Opinions/Chancery/z.pdf'',
               link_text = ''In re Z'', stale = True\<rparr>"

definition link_other :: anchor where
  "link_other = \<lparr>link_href = Some ''https://courts.delaware.gov/forms/Fees.PDF'',
                link_text = ''Fee schedule'', stale = False\<rparr>"

definition link_home :: anchor where
  "link_home = \<lparr>link_href = Some ''https://courts.delaware.gov/'', link_text = ''Home'',
               stale = False\<rparr>"

definition link_a_op :: anchor where
  "link_a_op = \<lparr>link_href = Some ''https://courts.delaware.gov/chancery/a/op.pdf'',
               link_text = ''Smith v. Jones'', stale = False\<rparr>"

definition link_b_op :: anchor where
  "link_b_op = \<lparr>link_href = Some ''https://courts.delaware.gov/chancery/b/op.pdf'',
               link_text = ''Doe v. Roe'', stale = False\<rparr>"

definition op_x :: "nat \<Rightarrow> opinion" where
  "op_x k = \<lparr>title = ''In re X'', url = ''https://courts.delaware.gov/Opinions/Chancery/x.pdf'',
            date_found = demo_clock k\<rparr>"

definition op_y :: "nat \<Rightarrow> opinion" where
  "op_y k = \<lparr>title = ''In re Y'', url = ''https://courts.delaware.gov/Opinions/Chancery/y.pdf'',
            date_found = demo_clock k\<rparr>"

definition op_a :: "nat \<Rightarrow> opinion" where
  "op_a k = \<lparr>title = ''Smith v. Jones'', url = ''https://courts.delaware.gov/chancery/a/op.pdf'',
            date_found = demo_clock k\<rparr>"

definition op_b :: "nat \<Rightarrow> opinion" where
  "op_b k = \<lparr>title = ''Doe v. Roe'', url = ''https://courts.delaware.gov/chancery/b/op.pdf'',
            date_found = demo_clock k\<rparr>"

definition op_fees :: "nat \<Rightarrow> opinion" where
  "op_fees k = \<lparr>title = ''Fee schedule'', url = ''https://courts.delaware.gov/forms/Fees.PDF'',
               date_found = demo_clock k\<rparr>"

text \<open>The download of \<^verbatim>\<open>x.pdf\<close> succeeds, every other one fails.\<close>

definition get_x_only :: "string \<Rightarrow> string option" where
  "get_x_only u =
     (if u = ''https://courts.delaware.gov/Opinions/Chancery/x.pdf'' then Some ''%PDF-x'' else None)"

text \<open>Two documents with the same last path segment, both downloaded.\<close>

definition get_a_b :: "string \<Rightarrow> string option" where
  "get_a_b u =
     (if u = ''https://courts.delaware.gov/chancery/a/op.pdf'' then Some ''%PDF-a''
      else if u = ''https://courts.delaware.gov/chancery/b/op.pdf'' then Some ''%PDF-b''
      else None)"

definition env_xy :: env where
  "env_xy = env_of (page_of [link_home, link_x, link_other, link_y]) get_x_only"

definition env_clash :: env where
  "env_clash = env_of (page_of [link_a_op, link_b_op]) get_a_b"

definition env_twice :: env where
  "env_twice = env_of (page_of [link_x, link_x]) get_x_only"

definition no_browser :: browser where
  "no_browser = (page_of [link_x])\<lparr>launch_raises := True\<rparr>"

definition stocked :: world where
  "stocked = save_seen_opinions plain_codec [op_x 0] fresh"

definition garbled :: world where
  "garbled = fresh\<lparr>seen_file := Some ''[{''\<rparr>"

definition page_down :: browser where
  "page_down = (page_of [link_x])\<lparr>get_raises := True\<rparr>"

definition reject_all :: "message \<Rightarrow> bool" where
  "reject_all m \<longleftrightarrow> False"

definition env_rejected :: env where
  "env_rejected = env_xy\<lparr>smtp_accepts := reject_all\<rparr>"

definition page_half :: browser where
  "page_half = (page_of [link_home, link_other])\<lparr>tag_raises := True\<rparr>"

text \<open>
  Decoded values that need not be lists, and a reader of the three shortest texts that
  denote one.
\<close>

datatype jvalue = JNull | JArray "jvalue list" | JObject "(string \<times> jvalue) list"

definition read_short :: "string \<Rightarrow> jvalue option" where
  "read_short s =
     (if s = ''null'' then Some JNull
      else if s = ''[]'' then Some (JArray [])
      else if s = ''{}'' then Some (JObject [])
      else None)"

section \<open>The load and the run in the worlds of the development\<close>

lemma load_seen_opinions_unfold:
  "load_seen_opinions c w =
     (case seen_file w of
        None \<Rightarrow> Inr []
      | Some t \<Rightarrow> (case json_load c t of None \<Rightarrow> Inl JSONDecodeError | Some xs \<Rightarrow> Inr xs))"
  by (simp add: load_seen_opinions_def load_from_def access_of_def split: option.splits)

lemma main_unfold:
  "main c e w =
     (case load_seen_opinions c w of
        Inl x \<Rightarrow> (Crashed x, w)
      | Inr seen_opinions \<Rightarrow>
          (case scrape_chancery_opinions (browser e) (clock e) of
             Inl x \<Rightarrow> (Crashed x, w)
           | Inr current_opinions \<Rightarrow>
               process c e seen_opinions (diff current_opinions seen_opinions) w))"
  by (simp add: main_def main_from_def load_seen_opinions_def)

section \<open>The download loop and the attachments\<close>

lemma download_loop_eq:
  "download_loop e rs paths w =
     (paths @ map local_path (filter (fetched e) rs),
      w\<lparr>files := stored e rs (files w), trace := trace w @ map (fetch_event e) rs\<rparr>)"
proof (induction rs arbitrary: paths w)
  case Nil
  then show ?case by simp
next
  case (Cons r rs)
  show ?case
  proof (cases "http_get e (url r)")
    case None
    then show ?thesis
      by (simp add: Cons.IH download_pdf_def fetched_def fetch_event_def)
  next
    case (Some content)
    then show ?thesis
      by (simp add: Cons.IH download_pdf_def fetched_def fetch_event_def local_path_def Let_def)
  qed
qed

lemma stored_other:
  "\<forall>r \<in> set rs. fetched e r \<longrightarrow> local_path r \<noteq> p \<Longrightarrow> stored e rs fs p = fs p"
proof (induction rs arbitrary: fs)
  case Nil
  then show ?case by simp
next
  case (Cons a rs)
  then have "stored e rs fs' p = fs' p" for fs' by simp
  with Cons.prems show ?case
    by (cases "http_get e (url a)") (auto simp: fetched_def)
qed

lemma stored_fetched:
  "distinct (map local_path (filter (fetched e) rs)) \<Longrightarrow> r \<in> set rs \<Longrightarrow> fetched e r \<Longrightarrow>
   stored e rs fs (local_path r) = Some (fetched_bytes e r)"
proof (induction rs arbitrary: fs)
  case Nil
  then show ?case by simp
next
  case (Cons a rs)
  show ?case
  proof (cases "r \<in> set rs")
    case True
    with Cons show ?thesis by (auto split: if_splits)
  next
    case False
    with Cons.prems have ra: "r = a" by simp
    from Cons.prems ra have "local_path a \<notin> local_path ` set (filter (fetched e) rs)"
      by simp
    moreover
    have "\<forall>x \<in> set rs. fetched e x \<longrightarrow> local_path x \<noteq> local_path a"
    proof (intro ballI impI notI)
      fix x
      assume "x \<in> set rs" "fetched e x" "local_path x = local_path a"
      then have "local_path a \<in> local_path ` set (filter (fetched e) rs)"
        by (intro image_eqI[where x = x]) simp_all
      with \<open>local_path a \<notin> local_path ` set (filter (fetched e) rs)\<close> show False
        by simp
    qed
    ultimately show ?thesis using Cons.prems ra
      by (auto simp: stored_other fetched_def fetched_bytes_def split: option.splits)
  qed
qed

lemma attach_contents:
  "\<forall>r \<in> set xs. fs (local_path r) = Some (g r) \<Longrightarrow>
   attach_loop fs (map local_path xs) atts =
     atts @ map (\<lambda>r. (last_segment (local_path r), g r)) xs"
  by (induction xs arbitrary: atts) auto

lemma attach_fetched:
  assumes "distinct (map local_path (filter (fetched e) rs))"
  shows "attach_loop (stored e rs fs) (map local_path (filter (fetched e) rs)) [] =
         map (\<lambda>r. (last_segment (local_path r), fetched_bytes e r)) (filter (fetched e) rs)"
proof -
  have "\<forall>r \<in> set (filter (fetched e) rs).
          stored e rs fs (local_path r) = Some (fetched_bytes e r)"
    using assms by (simp add: stored_fetched)
  from attach_contents[OF this, of "[]"] show ?thesis by simp
qed

lemma stored_exists_path:
  "\<exists>r \<in> set rs. fetched e r \<and> local_path r = p \<Longrightarrow> stored e rs fs p \<noteq> None"
proof (induction rs arbitrary: fs)
  case Nil
  then show ?case by simp
next
  case (Cons a rs)
  show ?case
  proof (cases "\<exists>r \<in> set rs. fetched e r \<and> local_path r = p")
    case True
    then show ?thesis by (simp add: Cons.IH)
  next
    case False
    then have later: "\<forall>r \<in> set rs. fetched e r \<longrightarrow> local_path r \<noteq> p" by blast
    from False Cons.prems have "fetched e a" and "local_path a = p" by auto
    then show ?thesis
      by (auto simp: stored_other[OF later] fetched_def)
  qed
qed

lemma stored_exists:
  "r \<in> set rs \<Longrightarrow> fetched e r \<Longrightarrow> stored e rs fs (local_path r) \<noteq> None"
  by (rule stored_exists_path) blast

lemma attach_present:
  "\<forall>r \<in> set xs. fs (local_path r) \<noteq> None \<Longrightarrow>
   map fst (attach_loop fs (map local_path xs) atts) =
     map fst atts @ map (\<lambda>r. last_segment (local_path r)) xs"
  by (induction xs arbitrary: atts) auto

lemma attach_names:
  "map fst (attach_loop (stored e rs fs) (map local_path (filter (fetched e) rs)) []) =
     map (\<lambda>r. last_segment (local_path r)) (filter (fetched e) rs)"
proof -
  have "\<forall>r \<in> set (filter (fetched e) rs). stored e rs fs (local_path r) \<noteq> None"
    by (simp add: stored_exists)
  from attach_present[OF this, of "[]"] show ?thesis by simp
qed

lemma body_line_listed: "r \<in> set new \<Longrightarrow> sublist (body_line r) (email_body new)"
proof -
  assume "r \<in> set new"
  then obtain ys zs where "new = ys @ r # zs" by (auto dest: split_list)
  then have "email_body new =
      (''Found '' @ str_nat (length new) @ '' new opinion(s):'' @ [nl, nl] @ concat (map body_line ys))
      @ body_line r @ concat (map body_line zs)"
    by (simp add: email_body_def)
  then show ?thesis unfolding sublist_def by blast
qed

section \<open>The shape of a run\<close>

lemma load_seen_file:
  "seen_file w' = seen_file w \<Longrightarrow> load_seen_opinions c w' = load_seen_opinions c w"
  by (simp add: load_seen_opinions_unfold)

lemma process_empty: "process c e seen [] w = (Skipped, w)"
  by (simp add: process_def)

lemma process_nonempty:
  assumes "new \<noteq> []"
  shows "process c e seen new w =
           (if smtp_accepts e (batch_message e new w)
            then (Persisted,
                  (after_downloads e new w)\<lparr>seen_file := Some (json_dump c (seen @ new)),
                     trace := trace w @ map (fetch_event e) new @
                       [Send (batch_message e new w) True, Save (seen @ new)]\<rparr>)
            else (NotifyFailed,
                  (after_downloads e new w)\<lparr>trace := trace w @ map (fetch_event e) new @
                       [Send (batch_message e new w) False]\<rparr>))"
  using assms
  by (simp add: process_def download_loop_eq send_email_def save_seen_opinions_def
      after_downloads_def batch_message_def Let_def)

lemma main_load_fails:
  "load_seen_opinions c w = Inl x \<Longrightarrow> main c e w = (Crashed x, w)"
  by (simp add: main_unfold)

lemma main_scrape_fails:
  "load_seen_opinions c w = Inr seen \<Longrightarrow>
   scrape_chancery_opinions (browser e) (clock e) = Inl x \<Longrightarrow> main c e w = (Crashed x, w)"
  by (simp add: main_unfold)

lemma main_process:
  "load_seen_opinions c w = Inr seen \<Longrightarrow>
   scrape_chancery_opinions (browser e) (clock e) = Inr cur \<Longrightarrow>
   main c e w = process c e seen (diff cur seen) w"
  by (simp add: main_unfold)


lemma main_shape:
  assumes "main c e w = (out, w')"
  shows "(diffed c e w = None \<and> (\<exists>x. out = Crashed x) \<and> w' = w)
       \<or> (diffed c e w = Some [] \<and> out = Skipped \<and> w' = w)
       \<or> (\<exists>seen new m. load_seen_opinions c w = Inr seen \<and> diffed c e w = Some new \<and> new \<noteq> []
            \<and> out = NotifyFailed \<and> seen_file w' = seen_file w
            \<and> new_events w w' = map (fetch_event e) new @ [Send m False])
       \<or> (\<exists>seen new m. load_seen_opinions c w = Inr seen \<and> diffed c e w = Some new \<and> new \<noteq> []
            \<and> out = Persisted \<and> seen_file w' = Some (json_dump c (seen @ new))
            \<and> new_events w w' = map (fetch_event e) new @ [Send m True, Save (seen @ new)])"
proof (cases "load_seen_opinions c w")
  case (Inl x)
  with assms show ?thesis by (auto simp: main_load_fails diffed_def)
next
  case (Inr seen)
  note load = this
  show ?thesis
  proof (cases "scrape_chancery_opinions (browser e) (clock e)")
    case (Inl x)
    with assms load show ?thesis by (auto simp: main_scrape_fails diffed_def)
  next
    case (Inr cur)
    then have d: "diffed c e w = Some (diff cur seen)" using load by (simp add: diffed_def)
    have p: "process c e seen (diff cur seen) w = (out, w')"
      using assms load Inr by (simp add: main_process)
    show ?thesis
    proof (cases "diff cur seen = []")
      case True
      with p d show ?thesis by (simp add: process_empty)
    next
      case False
      from p show ?thesis
        unfolding process_nonempty[OF False]
        using False d load
        by (auto simp: new_events_def after_downloads_def split: if_splits)
    qed
  qed
qed

section \<open>The two extraction loops\<close>

lemma str_contains_nonempty: "str_contains sub s \<Longrightarrow> sub \<noteq> [] \<Longrightarrow> s \<noteq> []"
  by (cases s) auto

lemma spec_records_Nil: "spec_records now k xs = [] \<longleftrightarrow> xs = []"
  by (cases xs) auto

lemma primary_loop_eq:
  "primary_loop now links acc =
     acc @ spec_records now (length acc)
       [a \<leftarrow> links. \<not> stale a \<and> truthy (link_href a) \<and> str_strip (link_text a) \<noteq> [] \<and>
                    str_contains ''chancery'' (str_lower (target (link_href a)))]"
  by (induction links arbitrary: acc) (auto simp: read_link_def found_def)

lemma fallback_loop_eq:
  "fallback_loop now links acc =
     acc @ spec_records now (length acc)
       [a \<leftarrow> links. \<not> stale a \<and> truthy (link_href a) \<and>
                    str_contains ''.pdf'' (str_lower (target (link_href a))) \<and>
                    str_strip (link_text a) \<noteq> []]"
  by (induction links arbitrary: acc) (auto simp: read_link_def found_def)

lemma primary_filter:
  "[a \<leftarrow> find_pdf_links anchors. \<not> stale a \<and> truthy (link_href a) \<and> str_strip (link_text a) \<noteq> [] \<and>
        str_contains ''chancery'' (str_lower (target (link_href a)))] =
   filter spec_primary (readable anchors)"
  (is "filter ?P (find_pdf_links anchors) = _")
proof -
  let ?Q = "\<lambda>a. case link_href a of None \<Rightarrow> False | Some h \<Rightarrow> str_contains ''.pdf'' h"
  have eq: "?Q a \<and> ?P a \<longleftrightarrow> \<not> stale a \<and> spec_primary a" for a
    by (cases "link_href a")
       (auto simp: spec_primary_def truthy_def target_def dest: str_contains_nonempty)
  have "filter ?P (find_pdf_links anchors) = filter (\<lambda>a. ?Q a \<and> ?P a) anchors"
    unfolding find_pdf_links_def by (rule filter_filter)
  also have "\<dots> = filter (\<lambda>a. \<not> stale a \<and> spec_primary a) anchors"
    by (rule filter_cong[OF refl]) (rule eq)
  also have "\<dots> = filter spec_primary (readable anchors)"
    unfolding readable_def by (rule filter_filter[symmetric])
  finally show ?thesis .
qed

lemma fallback_filter:
  "[a \<leftarrow> anchors. \<not> stale a \<and> truthy (link_href a) \<and>
        str_contains ''.pdf'' (str_lower (target (link_href a))) \<and> str_strip (link_text a) \<noteq> []] =
   filter spec_fallback (readable anchors)"
  (is "filter ?P anchors = _")
proof -
  have eq: "?P a \<longleftrightarrow> \<not> stale a \<and> spec_fallback a" for a
    by (cases "link_href a")
       (auto simp: spec_fallback_def truthy_def target_def str_lower_def dest: str_contains_nonempty)
  have "filter ?P anchors = filter (\<lambda>a. \<not> stale a \<and> spec_fallback a) anchors"
    by (rule filter_cong[OF refl]) (rule eq)
  also have "\<dots> = filter spec_fallback (readable anchors)"
    unfolding readable_def by (rule filter_filter[symmetric])
  finally show ?thesis .
qed

lemma scrape_body_eq:
  "scrape_body b now =
     (if get_raises b \<or> xpath_raises b then []
      else if filter spec_primary (readable (dom b)) \<noteq> []
           then spec_records now 0 (filter spec_primary (readable (dom b)))
      else if tag_raises b then []
      else spec_records now 0 (filter spec_fallback (readable (dom b))))"
  by (simp add: scrape_body_def primary_loop_eq fallback_loop_eq primary_filter fallback_filter
      spec_records_Nil Let_def)

lemma readable_all: "\<forall>a \<in> set anchors. \<not> stale a \<Longrightarrow> readable anchors = anchors"
  by (simp add: readable_def)

section \<open>Urls of the store\<close>

lemma diff_unseen: "r \<in> set (diff cur seen) \<Longrightarrow> url r \<notin> set (map url seen)"
  by (simp add: diff_def new_opinions_def seen_urls_def)

lemma diff_distinct:
  assumes "distinct (map url seen)" and "distinct (map url cur)"
  shows "distinct (map url (seen @ diff cur seen))"
proof -
  have "distinct (map url (diff cur seen))"
    using assms(2) by (simp add: diff_def new_opinions_def distinct_map_filter)
  moreover have "set (map url seen) \<inter> set (map url (diff cur seen)) = {}"
  proof (rule ccontr)
    assume "set (map url seen) \<inter> set (map url (diff cur seen)) \<noteq> {}"
    then obtain u where "u \<in> set (map url seen)" and "u \<in> set (map url (diff cur seen))"
      by blast
    then obtain r where "r \<in> set (diff cur seen)" and "url r = u"
      by auto
    with diff_unseen[of r cur seen] \<open>u \<in> set (map url seen)\<close> show False by simp
  qed
  ultimately show ?thesis using assms(1) by simp
qed

lemma run_keeps_distinct:
  assumes inv: "inverts c" and dc: "distinct_candidates e" and run: "main c e w = (out, w')"
    and load: "load_seen_opinions c w = Inr xs" and dx: "distinct (map url xs)"
  shows "\<exists>ys. load_seen_opinions c w' = Inr ys \<and> distinct (map url ys)"
proof -
  have same: ?thesis if "seen_file w' = seen_file w"
    using load dx load_seen_file[OF that, of c] by simp
  show ?thesis
  proof (cases "scrape_chancery_opinions (browser e) (clock e)")
    case (Inl x)
    have "main c e w = (Crashed x, w)" by (rule main_scrape_fails[OF load Inl])
    with run have "w' = w" by simp
    then show ?thesis using same by simp
  next
    case (Inr cur)
    then have dcur: "distinct (map url cur)" using dc by (simp add: distinct_candidates_def)
    have d: "diffed c e w = Some (diff cur xs)" using Inr load by (simp add: diffed_def)
    from main_shape[OF run] show ?thesis
    proof (elim disjE exE conjE)
      assume "diffed c e w = None"
      with d show ?thesis by simp
    next
      assume "w' = w"
      then show ?thesis using same by simp
    next
      fix seen new m
      assume "seen_file w' = seen_file w"
      then show ?thesis by (rule same)
    next
      fix seen new m
      assume "load_seen_opinions c w = Inr seen" and "diffed c e w = Some new"
        and sf: "seen_file w' = Some (json_dump c (seen @ new))"
      then have "seen = xs" and "new = diff cur xs" using load d by simp_all
      then have "load_seen_opinions c w' = Inr (xs @ diff cur xs)"
        using inv sf by (simp add: load_seen_opinions_unfold inverts_def)
      then show ?thesis using diff_distinct[OF dx dcur] by simp
    qed
  qed
qed

section \<open>The concrete codec reads back what it writes\<close>

lemma unquote_quote: "unquote_body (concat (map quote_char s) @ dq # rest) = Some (s, rest)"
  by (induction s) (auto simp: quote_char_def dq_def bs_def)

lemma unquote_str_quote: "unquote_str (quote_str s @ rest) = Some (s, rest)"
  by (simp add: unquote_str_def quote_str_def unquote_quote)

lemma expect_append: "expect p (p @ rest) = Some rest"
  by (simp add: expect_def)

lemma parse_field_dump: "parse_field k (key_prefix k @ quote_str s @ rest) = Some (s, rest)"
  by (simp add: parse_field_def expect_append unquote_str_quote)

lemma parse_record_dump: "parse_record (dump_record r @ rest) = Some (r, rest)"
proof -
  have "dump_record r @ rest =
      (''  {'' @ [nl]) @ key_prefix ''title'' @ quote_str (title r) @
      ('','' @ [nl]) @ key_prefix ''url'' @ quote_str (url r) @
      ('','' @ [nl]) @ key_prefix ''date_found'' @ quote_str (date_found r) @
      ([nl] @ ''  }'') @ rest"
    by (simp add: dump_record_def)
  then show ?thesis
    unfolding parse_record_def
    by (simp only: expect_append parse_field_dump Option.bind.simps prod.case) simp
qed

lemma dump_records_Cons:
  "rs \<noteq> [] \<Longrightarrow> dump_records (r # rs) = dump_record r @ '','' @ [nl] @ dump_records rs"
  by (cases rs) simp_all

lemma dump_records_starts: "rs \<noteq> [] \<Longrightarrow> \<exists>t. dump_records rs = CHR '' '' # t"
  by (cases rs rule: dump_records.cases) (simp_all add: dump_record_def)

lemma dump_records_length: "length rs \<le> length (dump_records rs @ [nl] @ '']'')"
  by (induction rs rule: dump_records.induct) simp_all

lemma parse_records_dump:
  "rs \<noteq> [] \<Longrightarrow> length rs \<le> n \<Longrightarrow> parse_records n (dump_records rs @ [nl] @ '']'') = Some rs"
proof (induction rs arbitrary: n)
  case Nil
  then show ?case by simp
next
  case (Cons r rs)
  then obtain k where n: "n = Suc k" and k: "length rs \<le> k" by (cases n) auto
  show ?case
  proof (cases "rs = []")
    case True
    then show ?thesis using n by (simp add: parse_record_dump)
  next
    case False
    then obtain t where t: "dump_records rs = CHR '' '' # t" using dump_records_starts by blast
    have "parse_records k (dump_records rs @ [nl] @ '']'') = Some rs"
      using Cons.IH[OF False k] .
    moreover have "dump_records (r # rs) @ [nl] @ '']'' =
        dump_record r @ ('','' @ [nl]) @ (dump_records rs @ [nl] @ '']'')"
      using False by (simp add: dump_records_Cons)
    ultimately show ?thesis using n t
      by (simp add: parse_record_dump expect_def nl_def)
  qed
qed

lemma plain_roundtrip: "plain_load (plain_dump xs) = Some xs"
proof (cases "xs = []")
  case True
  then show ?thesis by (simp add: plain_load_def plain_dump_def)
next
  case False
  have neq: "''['' @ [nl] @ dump_records xs @ [nl] @ '']'' \<noteq> ''[]''"
    by (simp add: nl_def)
  show ?thesis
    using False neq parse_records_dump[OF False dump_records_length]
    by (simp add: plain_load_def plain_dump_def expect_def)
qed

lemma plain_codec_inverts: "inverts plain_codec"
  by (simp add: inverts_def plain_codec_def plain_roundtrip)

section \<open>The claims\<close>

text \<open>
  C1. For every candidate sequence \<open>S\<close> and every seen list \<open>T\<close>, the diff step returns
  exactly the records of \<open>S\<close> whose url is not among the urls of \<open>T\<close>, in the order of
  \<open>S\<close>. The step is the pure function \<^const>\<open>diff\<close> of the two lists: it takes no world
  and returns none, and its arguments are values.
\<close>

theorem diff_keeps_unseen_in_order:
  "diff S T = [r \<leftarrow> S. \<not> (\<exists>t \<in> set T. url t = url r)] \<and> subseq (diff S T) S"
proof -
  have unseen: "url r \<notin> seen_urls T \<longleftrightarrow> \<not> (\<exists>t \<in> set T. url t = url r)" for r
    by (simp add: seen_urls_def image_iff) metis
  show ?thesis by (simp add: diff_def new_opinions_def unseen)
qed

theorem diff_keeps_unseen_in_order_witness:
  "diff [op_x 0, op_y 1] [op_x 5] =
     [r \<leftarrow> [op_x 0, op_y 1]. \<not> (\<exists>t \<in> set [op_x 5]. url t = url r)]
   \<and> subseq (diff [op_x 0, op_y 1] [op_x 5]) [op_x 0, op_y 1]
   \<and> diff [op_x 0, op_y 1] [op_x 5] = [op_y 1]"
  using diff_keeps_unseen_in_order[of "[op_x 0, op_y 1]" "[op_x 5]"]
  by (simp add: op_x_def op_y_def)

text \<open>
  C2. The store is written only when the diffed set is not empty and the notifier
  reports success. When the notifier fails the content of the store after the run is its
  content before the run and nothing is saved; when the diffed set is empty the run
  changes nothing at all, so no notification is attempted either.
\<close>

theorem store_written_only_after_delivery:
  assumes "main c e w = (out, w')"
  shows "((\<exists>xs. Save xs \<in> set (new_events w w')) \<or> seen_file w' \<noteq> seen_file w \<longrightarrow>
           (\<exists>new m. diffed c e w = Some new \<and> new \<noteq> [] \<and> Send m True \<in> set (new_events w w')))
       \<and> ((\<exists>m. Send m False \<in> set (new_events w w')) \<longrightarrow>
           seen_file w' = seen_file w \<and> (\<forall>xs. Save xs \<notin> set (new_events w w')))
       \<and> (diffed c e w = Some [] \<longrightarrow> w' = w \<and> new_events w w' = [])"
  using main_shape[OF assms]
  by (elim disjE exE conjE) (auto simp: new_events_def fetch_event_def)

theorem store_written_only_after_delivery_witness:
  "main plain_codec env_xy fresh = (Persisted, snd (main plain_codec env_xy fresh))
   \<and> Save [op_x 0, op_y 1] \<in> set (new_events fresh (snd (main plain_codec env_xy fresh)))
   \<and> (\<exists>new m. diffed plain_codec env_xy fresh = Some new \<and> new \<noteq> []
         \<and> Send m True \<in> set (new_events fresh (snd (main plain_codec env_xy fresh))))
   \<and> main plain_codec env_rejected fresh = (NotifyFailed, snd (main plain_codec env_rejected fresh))
   \<and> Send (batch_message env_rejected [op_x 0, op_y 1] fresh) False
         \<in> set (new_events fresh (snd (main plain_codec env_rejected fresh)))
   \<and> seen_file (snd (main plain_codec env_rejected fresh)) = seen_file fresh
   \<and> diffed plain_codec env_xy stocked = Some [op_y 1]
   \<and> diffed plain_codec env_xy (snd (main plain_codec env_xy stocked)) = Some []
   \<and> main plain_codec env_xy (snd (main plain_codec env_xy stocked)) =
         (Skipped, snd (main plain_codec env_xy stocked))"
proof -
  have out: "fst (main plain_codec env_xy fresh) = Persisted"
    by code_simp
  have run: "main plain_codec env_xy fresh = (Persisted, snd (main plain_codec env_xy fresh))"
    using out by (metis prod.collapse)
  have saved: "Save [op_x 0, op_y 1] \<in> set (new_events fresh (snd (main plain_codec env_xy fresh)))"
    by code_simp
  have delivered: "\<exists>new m. diffed plain_codec env_xy fresh = Some new \<and> new \<noteq> []
         \<and> Send m True \<in> set (new_events fresh (snd (main plain_codec env_xy fresh)))"
    using store_written_only_after_delivery[OF run] saved by blast
  have out2: "fst (main plain_codec env_rejected fresh) = NotifyFailed"
    by code_simp
  have run2: "main plain_codec env_rejected fresh =
      (NotifyFailed, snd (main plain_codec env_rejected fresh))"
    using out2 by (metis prod.collapse)
  have refused: "Send (batch_message env_rejected [op_x 0, op_y 1] fresh) False
         \<in> set (new_events fresh (snd (main plain_codec env_rejected fresh)))"
    by code_simp
  have kept: "seen_file (snd (main plain_codec env_rejected fresh)) = seen_file fresh"
    using store_written_only_after_delivery[OF run2] refused by blast
  have first: "diffed plain_codec env_xy stocked = Some [op_y 1]"
    by code_simp
  have none: "diffed plain_codec env_xy (snd (main plain_codec env_xy stocked)) = Some []"
    by code_simp
  have run3: "main plain_codec env_xy (snd (main plain_codec env_xy stocked)) =
      (fst (main plain_codec env_xy (snd (main plain_codec env_xy stocked))),
       snd (main plain_codec env_xy (snd (main plain_codec env_xy stocked))))"
    by simp
  have out3: "fst (main plain_codec env_xy (snd (main plain_codec env_xy stocked))) = Skipped"
    by code_simp
  have same: "snd (main plain_codec env_xy (snd (main plain_codec env_xy stocked))) =
      snd (main plain_codec env_xy stocked)"
    using store_written_only_after_delivery[OF run3] none by blast
  have run3': "main plain_codec env_xy (snd (main plain_codec env_xy stocked)) =
         (Skipped, snd (main plain_codec env_xy stocked))"
    using run3 out3 same by simp
  show ?thesis
    using run saved delivered run2 refused kept first none run3' by blast
qed

text \<open>
  C3. When the notifier succeeds, the run writes to the store the list loaded before the
  run followed by every record of the diffed set, in the order of the diff and whether
  or not the download of a record succeeded: this list is the last thing the run saves,
  the file holds its encoding, and loading it afterwards yields it when the decoder
  reads this encoding back.
\<close>

theorem persisted_list_after_delivery:
  assumes "load_seen_opinions c w = Inr seen" and "diffed c e w = Some new"
    and "main c e w = (out, w')" and "Send m True \<in> set (new_events w w')"
  shows "seen_file w' = Some (json_dump c (seen @ new))
       \<and> last (new_events w w') = Save (seen @ new)
       \<and> (json_load c (json_dump c (seen @ new)) = Some (seen @ new) \<longrightarrow>
            load_seen_opinions c w' = Inr (seen @ new))"
  using main_shape[OF assms(3)] assms(1,2,4)
  by (elim disjE exE conjE) (auto simp: new_events_def fetch_event_def load_seen_opinions_unfold)

theorem persisted_list_after_delivery_witness:
  "load_seen_opinions plain_codec stocked = Inr [op_x 0]
   \<and> diffed plain_codec env_xy stocked = Some [op_y 1]
   \<and> \<not> fetched env_xy (op_y 1)
   \<and> main plain_codec env_xy stocked = (Persisted, snd (main plain_codec env_xy stocked))
   \<and> Send (batch_message env_xy [op_y 1] stocked) True
        \<in> set (new_events stocked (snd (main plain_codec env_xy stocked)))
   \<and> seen_file (snd (main plain_codec env_xy stocked)) = Some (plain_dump [op_x 0, op_y 1])
   \<and> load_seen_opinions plain_codec (snd (main plain_codec env_xy stocked)) = Inr [op_x 0, op_y 1]"
proof -
  have load: "load_seen_opinions plain_codec stocked = Inr [op_x 0]"
    by code_simp
  have new: "diffed plain_codec env_xy stocked = Some [op_y 1]"
    by code_simp
  have failed: "\<not> fetched env_xy (op_y 1)"
    by code_simp
  have out: "fst (main plain_codec env_xy stocked) = Persisted"
    by code_simp
  have run: "main plain_codec env_xy stocked = (Persisted, snd (main plain_codec env_xy stocked))"
    using out by (metis prod.collapse)
  have sent: "Send (batch_message env_xy [op_y 1] stocked) True
        \<in> set (new_events stocked (snd (main plain_codec env_xy stocked)))"
    by code_simp
  have rt: "json_load plain_codec (json_dump plain_codec ([op_x 0] @ [op_y 1])) = Some ([op_x 0] @ [op_y 1])"
    by (simp add: plain_codec_def plain_roundtrip)
  from persisted_list_after_delivery[OF load new run sent] rt load new failed run sent
  show ?thesis by (simp add: plain_codec_def)
qed

text \<open>
  C4. For every non-empty diffed set, a download that fails does not end the batch:
  every record of the set is tried, in order, the notifier is called once after the
  last download, and the body of its message has the line of every new record. The
  message has one attachment for each record whose download succeeded and none for the
  others. Each attachment holds the bytes downloaded for its record provided the
  downloaded records are stored under pairwise distinct local paths.
\<close>

theorem batch_survives_fetch_failures:
  assumes "load_seen_opinions c w = Inr seen" and "diffed c e w = Some new" and "new \<noteq> []"
    and "main c e w = (out, w')"
  shows "\<exists>m ok. new_events w w' =
             map (fetch_event e) new @ Send m ok # (if ok then [Save (seen @ new)] else [])
         \<and> body m = email_body new
         \<and> (\<forall>r \<in> set new. sublist (body_line r) (body m))
         \<and> map fst (attachments m) = map (\<lambda>r. last_segment (local_path r)) (filter (fetched e) new)
         \<and> (distinct (map local_path (filter (fetched e) new)) \<longrightarrow>
              attachments m =
                map (\<lambda>r. (last_segment (local_path r), fetched_bytes e r)) (filter (fetched e) new))"
proof -
  obtain cur where cur: "scrape_chancery_opinions (browser e) (clock e) = Inr cur"
    and new: "new = diff cur seen"
    using assms(1,2) by (auto simp: diffed_def split: sum.splits)
  let ?m = "batch_message e new w"
  let ?ok = "smtp_accepts e ?m"
  have p: "process c e seen new w = (out, w')"
    using assms(1,4) cur new by (simp add: main_process)
  have ev: "new_events w w' =
      map (fetch_event e) new @ Send ?m ?ok # (if ?ok then [Save (seen @ new)] else [])"
    using p unfolding process_nonempty[OF assms(3)]
    by (auto simp: new_events_def split: if_splits)
  have b: "body ?m = email_body new"
    by (simp add: batch_message_def compose_def)
  have a: "attachments ?m =
      attach_loop (stored e new (files w)) (map local_path (filter (fetched e) new)) []"
    by (simp add: batch_message_def compose_def after_downloads_def)
  show ?thesis
    apply (rule exI[where x = ?m], rule exI[where x = ?ok])
    using ev b a by (simp add: body_line_listed attach_names attach_fetched)
qed

theorem batch_survives_fetch_failures_witness:
  "load_seen_opinions plain_codec fresh = Inr []
   \<and> diffed plain_codec env_xy fresh = Some [op_x 0, op_y 1]
   \<and> fetched env_xy (op_x 0) \<and> \<not> fetched env_xy (op_y 1)
   \<and> main plain_codec env_xy fresh = (Persisted, snd (main plain_codec env_xy fresh))
   \<and> (\<exists>m ok. new_events fresh (snd (main plain_codec env_xy fresh)) =
          [Fetch (url (op_x 0)) True, Fetch (url (op_y 1)) False, Send m ok]
            @ (if ok then [Save [op_x 0, op_y 1]] else [])
        \<and> body m = email_body [op_x 0, op_y 1]
        \<and> attachments m = [(''x.pdf'', ''%PDF-x'')])"
proof -
  have load: "load_seen_opinions plain_codec fresh = Inr []"
    by code_simp
  have new: "diffed plain_codec env_xy fresh = Some [op_x 0, op_y 1]"
    by code_simp
  have ne: "[op_x 0, op_y 1] \<noteq> []"
    by simp
  have out: "fst (main plain_codec env_xy fresh) = Persisted"
    by code_simp
  have run: "main plain_codec env_xy fresh = (Persisted, snd (main plain_codec env_xy fresh))"
    using out by (metis prod.collapse)
  have fx: "fetched env_xy (op_x 0)" and fy: "\<not> fetched env_xy (op_y 1)"
    by code_simp+
  have px: "last_segment (local_path (op_x 0)) = ''x.pdf''"
    by code_simp
  have bx: "fetched_bytes env_xy (op_x 0) = ''%PDF-x''"
    by code_simp
  from batch_survives_fetch_failures[OF load new ne run]
  obtain m ok where
    "new_events fresh (snd (main plain_codec env_xy fresh)) =
       map (fetch_event env_xy) [op_x 0, op_y 1] @ Send m ok # (if ok then [Save ([] @ [op_x 0, op_y 1])] else [])"
    and "body m = email_body [op_x 0, op_y 1]"
    and "distinct (map local_path (filter (fetched env_xy) [op_x 0, op_y 1])) \<longrightarrow>
         attachments m = map (\<lambda>r. (last_segment (local_path r), fetched_bytes env_xy r))
           (filter (fetched env_xy) [op_x 0, op_y 1])"
    by blast
  then have "new_events fresh (snd (main plain_codec env_xy fresh)) =
          [Fetch (url (op_x 0)) True, Fetch (url (op_y 1)) False, Send m ok]
            @ (if ok then [Save [op_x 0, op_y 1]] else [])
        \<and> body m = email_body [op_x 0, op_y 1]
        \<and> attachments m = [(''x.pdf'', ''%PDF-x'')]"
    using fx fy px bx by (simp add: fetch_event_def)
  then show ?thesis using load new fx fy run by blast
qed

text \<open>
  The claim as stated, that the message attaches exactly the documents downloaded,
  fails when two new records share the last segment of their url: both downloads
  succeed, the second overwrites the file of the first, and the message carries the
  bytes of the second document twice and those of the first not at all.
\<close>

theorem attachments_clash_counterexample:
  "diffed plain_codec env_clash fresh = Some [op_a 0, op_b 1]
   \<and> fetched env_clash (op_a 0) \<and> fetched_bytes env_clash (op_a 0) = ''%PDF-a''
   \<and> fetched env_clash (op_b 1) \<and> fetched_bytes env_clash (op_b 1) = ''%PDF-b''
   \<and> sent_attachments (new_events fresh (snd (main plain_codec env_clash fresh))) =
        [[(''op.pdf'', ''%PDF-b''), (''op.pdf'', ''%PDF-b'')]]"
  by code_simp

text \<open>
  C5. Given the anchors of the rendered page, when no driver call raises and every
  anchor can be read, the extraction keeps exactly the anchors whose target contains
  \<^verbatim>\<open>.pdf\<close>, contains \<^verbatim>\<open>chancery\<close> without regard to case, and whose visible text
  is not empty; if and only if there is none, it keeps instead every anchor of the page
  whose target contains \<^verbatim>\<open>.pdf\<close> without regard to case and whose visible text is not
  empty. The records returned are made of the kept anchors, in the order of the page.
\<close>

theorem extraction_policy:
  assumes "\<not> launch_raises b" and "\<not> get_raises b" and "\<not> xpath_raises b"
    and "\<not> tag_raises b" and "\<not> quit_raises b" and "\<forall>a \<in> set (dom b). \<not> stale a"
  shows "scrape_chancery_opinions b now = Inr (spec_records now 0 (spec_keep (dom b)))"
  using assms
  by (simp add: scrape_chancery_opinions_def scrape_body_eq readable_all spec_keep_def)

theorem extraction_policy_witness:
  "\<not> launch_raises (page_of [link_home, link_other]) \<and> \<not> get_raises (page_of [link_home, link_other])
   \<and> \<not> xpath_raises (page_of [link_home, link_other]) \<and> \<not> tag_raises (page_of [link_home, link_other])
   \<and> \<not> quit_raises (page_of [link_home, link_other])
   \<and> \<not> stale link_home \<and> \<not> stale link_other \<and> \<not> stale link_x \<and> \<not> stale link_y
   \<and> filter spec_primary [link_home, link_other] = []
   \<and> spec_keep (dom (page_of [link_home, link_other])) = [link_other]
   \<and> scrape_chancery_opinions (page_of [link_home, link_other]) demo_clock = Inr [op_fees 0]
   \<and> spec_keep (dom (page_of [link_home, link_x, link_other, link_y])) = [link_x, link_y]
   \<and> scrape_chancery_opinions (page_of [link_home, link_x, link_other, link_y]) demo_clock =
       Inr [op_x 0, op_y 1]"
proof -
  let ?b = "page_of [link_home, link_other]"
  let ?b2 = "page_of [link_home, link_x, link_other, link_y]"
  have calls: "\<not> launch_raises ?b" "\<not> get_raises ?b" "\<not> xpath_raises ?b" "\<not> tag_raises ?b"
    "\<not> quit_raises ?b"
    by (simp_all add: page_of_def)
  have calls2: "\<not> launch_raises ?b2" "\<not> get_raises ?b2" "\<not> xpath_raises ?b2" "\<not> tag_raises ?b2"
    "\<not> quit_raises ?b2"
    by (simp_all add: page_of_def)
  have fresh_links: "\<not> stale link_home" "\<not> stale link_other" "\<not> stale link_x" "\<not> stale link_y"
    by (simp_all add: link_home_def link_other_def link_x_def link_y_def)
  then have all: "\<forall>a \<in> set (dom ?b). \<not> stale a" and all2: "\<forall>a \<in> set (dom ?b2). \<not> stale a"
    by (simp_all add: page_of_def)
  have none: "filter spec_primary [link_home, link_other] = []"
    by code_simp
  have keep: "spec_keep (dom ?b) = [link_other]"
    by code_simp
  have recs: "spec_records demo_clock 0 [link_other] = [op_fees 0]"
    by code_simp
  have r1: "scrape_chancery_opinions ?b demo_clock = Inr [op_fees 0]"
    using extraction_policy[OF calls all, of demo_clock] keep recs by simp
  have keep2: "spec_keep (dom ?b2) = [link_x, link_y]"
    by code_simp
  have recs2: "spec_records demo_clock 0 [link_x, link_y] = [op_x 0, op_y 1]"
    by code_simp
  have r2: "scrape_chancery_opinions ?b2 demo_clock = Inr [op_x 0, op_y 1]"
    using extraction_policy[OF calls2 all2, of demo_clock] keep2 recs2 by simp
  show ?thesis
    using calls fresh_links none keep r1 keep2 r2 by blast
qed

text \<open>
  C6. When the browser starts and quits without an exception, no exception of the
  attempt reaches the caller. An exception of the page load or of the search for the
  pdf links yields the empty candidate sequence, and so does an exception of the search
  for all anchors, which is only made when the first loop found nothing. An exception
  raised while one anchor is read skips that anchor only: the result is the one the page
  without the unreadable anchors gives.
\<close>

theorem scrape_contains_page_errors:
  assumes "\<not> launch_raises b" and "\<not> quit_raises b"
  shows "(\<exists>xs. scrape_chancery_opinions b now = Inr xs)
       \<and> (get_raises b \<or> xpath_raises b \<longrightarrow> scrape_chancery_opinions b now = Inr [])
       \<and> (tag_raises b \<and> filter spec_primary (readable (dom b)) = [] \<longrightarrow>
            scrape_chancery_opinions b now = Inr [])
       \<and> scrape_chancery_opinions b now =
            scrape_chancery_opinions (b\<lparr>dom := readable (dom b)\<rparr>) now"
proof -
  have "readable (readable xs) = readable xs" for xs
    by (simp add: readable_def)
  then show ?thesis
    using assms by (simp add: scrape_chancery_opinions_def scrape_body_eq)
qed

theorem scrape_contains_page_errors_witness:
  "\<not> launch_raises page_down \<and> \<not> quit_raises page_down \<and> get_raises page_down
   \<and> scrape_chancery_opinions page_down demo_clock = Inr []
   \<and> \<not> launch_raises page_half \<and> \<not> quit_raises page_half \<and> tag_raises page_half
   \<and> filter spec_primary (readable (dom page_half)) = []
   \<and> scrape_chancery_opinions page_half demo_clock = Inr []
   \<and> \<not> launch_raises (page_of [link_gone, link_x]) \<and> \<not> quit_raises (page_of [link_gone, link_x])
   \<and> readable (dom (page_of [link_gone, link_x])) = [link_x]
   \<and> scrape_chancery_opinions (page_of [link_gone, link_x]) demo_clock =
       scrape_chancery_opinions (page_of [link_x]) demo_clock"
proof -
  have calls: "\<not> launch_raises page_down" "\<not> quit_raises page_down"
    by (simp_all add: page_down_def page_of_def)
  have down: "get_raises page_down"
    by (simp add: page_down_def)
  have r1: "scrape_chancery_opinions page_down demo_clock = Inr []"
    using scrape_contains_page_errors[OF calls, of demo_clock] down by blast
  have calls2: "\<not> launch_raises page_half" "\<not> quit_raises page_half"
    by (simp_all add: page_half_def page_of_def)
  have half: "tag_raises page_half"
    by (simp add: page_half_def)
  have none: "filter spec_primary (readable (dom page_half)) = []"
    by code_simp
  have r2: "scrape_chancery_opinions page_half demo_clock = Inr []"
    using scrape_contains_page_errors[OF calls2, of demo_clock] half none by blast
  have calls3: "\<not> launch_raises (page_of [link_gone, link_x])"
    "\<not> quit_raises (page_of [link_gone, link_x])"
    by (simp_all add: page_of_def)
  have rd: "readable (dom (page_of [link_gone, link_x])) = [link_x]"
    by code_simp
  have "(page_of [link_gone, link_x])\<lparr>dom := [link_x]\<rparr> = page_of [link_x]"
    by (simp add: page_of_def)
  then have r3: "scrape_chancery_opinions (page_of [link_gone, link_x]) demo_clock =
       scrape_chancery_opinions (page_of [link_x]) demo_clock"
    using scrape_contains_page_errors[OF calls3, of demo_clock] rd by simp
  show ?thesis
    using calls down r1 calls2 half none r2 calls3 rd r3 by blast
qed

text \<open>
  The claim as stated, that every exception of the attempt is caught and gives the empty
  sequence, fails twice. Reading the first anchor of a page raises; the exception is
  caught, and the function returns the record of the second anchor, not the empty
  sequence. And when the browser does not start, the exception of \<^verbatim>\<open>setup_driver\<close>,
  raised before the \<^verbatim>\<open>try\<close>, leaves the function.
\<close>

theorem scrape_exception_counterexample:
  "stale link_gone
   \<and> find_pdf_links [link_gone, link_x] = [link_gone, link_x]
   \<and> scrape_chancery_opinions (page_of [link_gone, link_x]) demo_clock = Inr [op_x 0]
   \<and> launch_raises no_browser
   \<and> scrape_chancery_opinions no_browser demo_clock = Inl WebDriverException"
  by code_simp

text \<open>
  C7. A run adds to the store only records whose url no record of the store has. So in
  every store that runs produce from the empty store, no two records share a url,
  provided the decoder of the library reads back what its encoder writes and no page
  scraped by these runs shows a url twice among its candidates.
\<close>

theorem store_urls_distinct:
  assumes "inverts c" and "reachable distinct_candidates c w"
    and "load_seen_opinions c w = Inr xs"
  shows "distinct (map url xs)"
proof -
  have "\<exists>ys. load_seen_opinions c w = Inr ys \<and> distinct (map url ys)"
    using assms(2)
  proof (induction rule: reachable.induct)
    case (reachable_init w)
    then show ?case by (simp add: load_seen_opinions_unfold)
  next
    case (reachable_run w e out w')
    from reachable_run.IH obtain xs
      where "load_seen_opinions c w = Inr xs" and "distinct (map url xs)" by blast
    then show ?case
      by (rule run_keeps_distinct[OF assms(1) reachable_run.hyps(2,3)])
  qed
  with assms(3) show ?thesis by simp
qed

theorem store_urls_distinct_witness:
  "inverts plain_codec
   \<and> seen_file fresh = None
   \<and> distinct_candidates env_xy
   \<and> reachable distinct_candidates plain_codec (snd (main plain_codec env_xy fresh))
   \<and> load_seen_opinions plain_codec (snd (main plain_codec env_xy fresh)) = Inr [op_x 0, op_y 1]
   \<and> distinct (map url [op_x 0, op_y 1])"
proof -
  have empty: "seen_file fresh = None"
    by (simp add: fresh_def)
  have page: "distinct_candidates env_xy"
    by code_simp
  have run: "main plain_codec env_xy fresh =
      (fst (main plain_codec env_xy fresh), snd (main plain_codec env_xy fresh))"
    by simp
  have reach: "reachable distinct_candidates plain_codec (snd (main plain_codec env_xy fresh))"
    by (rule reachable_run[where P = distinct_candidates and e = env_xy, OF reachable_init[OF empty] page run])
  have load: "load_seen_opinions plain_codec (snd (main plain_codec env_xy fresh)) = Inr [op_x 0, op_y 1]"
    by code_simp
  from store_urls_distinct[OF plain_codec_inverts reach load]
  show ?thesis using plain_codec_inverts empty page reach load by simp
qed

text \<open>
  The claim as stated fails for a page that shows the same link twice: both candidates
  are new to the empty store, both are saved, and the store then holds two records with
  one url.
\<close>

theorem duplicate_urls_counterexample:
  "seen_file fresh = None
   \<and> reachable any_env plain_codec (snd (main plain_codec env_twice fresh))
   \<and> load_seen_opinions plain_codec (snd (main plain_codec env_twice fresh)) = Inr [op_x 0, op_x 1]
   \<and> url (op_x 0) = url (op_x 1)
   \<and> \<not> distinct (map url [op_x 0, op_x 1])"
proof -
  have empty: "seen_file fresh = None"
    by (simp add: fresh_def)
  have run: "main plain_codec env_twice fresh =
      (fst (main plain_codec env_twice fresh), snd (main plain_codec env_twice fresh))"
    by simp
  have any: "any_env env_twice"
    by (simp add: any_env_def)
  have reach: "reachable any_env plain_codec (snd (main plain_codec env_twice fresh))"
    by (rule reachable_run[where P = any_env and e = env_twice, OF reachable_init[OF empty] any run])
  have load: "load_seen_opinions plain_codec (snd (main plain_codec env_twice fresh)) = Inr [op_x 0, op_x 1]"
    by code_simp
  have same: "url (op_x 0) = url (op_x 1)"
    by (simp add: op_x_def)
  show ?thesis using empty reach load same by simp
qed

text \<open>
  C8. Saving a record list \<open>x\<close> and then loading yields \<open>x\<close>, record for record and field
  for field, for every list that the decoder of the JSON library reads back from what
  its encoder writes. The store adds nothing of its own: \<^verbatim>\<open>save\<close> replaces the whole
  file by the encoding of \<open>x\<close>, whatever the file held, and \<^verbatim>\<open>load\<close> decodes the whole
  file.
\<close>

theorem save_then_load:
  "json_load c (json_dump c x) = Some x \<Longrightarrow>
   load_seen_opinions c (save_seen_opinions c x w) = Inr x"
  by (simp add: load_seen_opinions_unfold save_seen_opinions_def)

theorem save_then_load_witness:
  "json_load plain_codec (json_dump plain_codec [op_x 0, op_y 1]) = Some [op_x 0, op_y 1]
   \<and> load_seen_opinions plain_codec (save_seen_opinions plain_codec [op_x 0, op_y 1] stocked)
       = Inr [op_x 0, op_y 1]"
proof -
  have h: "json_load plain_codec (json_dump plain_codec [op_x 0, op_y 1]) = Some [op_x 0, op_y 1]"
    by (simp add: plain_codec_def plain_roundtrip)
  show ?thesis using h save_then_load[OF h, of stocked] by simp
qed

text \<open>
  C9. \<^verbatim>\<open>load\<close> returns the empty sequence when no state file exists. When the file
  exists, \<^verbatim>\<open>load\<close> has no handler and no default: an error raised while the file is
  opened or read propagates as the parse error of a malformed text does, and
  \<^verbatim>\<open>main\<close> catches neither, so the run ends there with the world as it was; the value
  decoded from a well-formed text is returned as it is, whatever its shape. So
  \<^verbatim>\<open>load\<close> answers with the empty default only when the file is missing or its text
  decodes to that value.
\<close>

theorem load_outcomes:
  "load_from parse nil Absent = Inr nil
   \<and> load_from parse nil (Fails x) = Inl x
   \<and> (parse t = None \<longrightarrow> load_from parse nil (Text t) = Inl JSONDecodeError)
   \<and> (parse t = Some v \<longrightarrow> load_from parse nil (Text t) = Inr v)
   \<and> (load_from parse nil a = Inr nil \<longrightarrow> a = Absent \<or> (\<exists>s. a = Text s \<and> parse s = Some nil))
   \<and> (load_from (json_load c) [] a = Inl y \<longrightarrow> main_from c e a w = (Crashed y, w))
   \<and> load_seen_opinions c w = load_from (json_load c) [] (access_of w)
   \<and> main c e w = main_from c e (access_of w) w"
proof -
  have silent: "a = Absent \<or> (\<exists>s. a = Text s \<and> parse s = Some nil)"
    if "load_from parse nil a = Inr nil"
  proof (cases a)
    case Absent
    then show ?thesis by simp
  next
    case (Fails z)
    with that show ?thesis by (simp add: load_from_def)
  next
    case (Text s)
    with that show ?thesis by (simp add: load_from_def split: option.splits)
  qed
  have crash: "main_from c e a w = (Crashed y, w)" if "load_from (json_load c) [] a = Inl y"
    using that by (simp add: main_from_def)
  show ?thesis
    using silent crash
    by (simp add: load_from_def load_seen_opinions_def main_def)
qed

theorem load_outcomes_witness:
  "access_of fresh = Absent \<and> load_seen_opinions plain_codec fresh = Inr []
   \<and> load_from (json_load plain_codec) [] (Fails UnicodeDecodeError) = Inl UnicodeDecodeError
   \<and> main_from plain_codec env_xy (Fails UnicodeDecodeError) fresh = (Crashed UnicodeDecodeError, fresh)
   \<and> access_of garbled = Text ''[{'' \<and> json_load plain_codec ''[{'' = None
   \<and> load_seen_opinions plain_codec garbled = Inl JSONDecodeError
   \<and> main plain_codec env_xy garbled = (Crashed JSONDecodeError, garbled)
   \<and> access_of stocked = Text (plain_dump [op_x 0])
   \<and> json_load plain_codec (plain_dump [op_x 0]) = Some [op_x 0]
   \<and> load_seen_opinions plain_codec stocked = Inr [op_x 0]
   \<and> read_short ''{}'' = Some (JObject [])
   \<and> load_from read_short (JArray []) (Text ''{}'') = Inr (JObject [])
   \<and> read_short ''[]'' = Some (JArray [])
   \<and> load_from read_short (JArray []) (Text ''[]'') = Inr (JArray [])"
proof -
  have a1: "access_of fresh = Absent"
    by (simp add: access_of_def fresh_def)
  have r1: "load_seen_opinions plain_codec fresh = Inr []"
    using load_outcomes[where parse = "json_load plain_codec" and nil = "[]" and c = plain_codec and w = fresh] a1
    by simp
  have r2: "load_from (json_load plain_codec) [] (Fails UnicodeDecodeError) = Inl UnicodeDecodeError"
    using load_outcomes[where parse = "json_load plain_codec" and nil = "[]" and x = UnicodeDecodeError] by blast
  have r3: "main_from plain_codec env_xy (Fails UnicodeDecodeError) fresh =
      (Crashed UnicodeDecodeError, fresh)"
    using load_outcomes[where parse = "json_load plain_codec" and nil = "[]"
        and a = "Fails UnicodeDecodeError" and c = plain_codec and y = UnicodeDecodeError
        and e = env_xy and w = fresh] r2
    by blast
  have a2: "access_of garbled = Text ''[{''"
    by (simp add: access_of_def garbled_def fresh_def)
  have bad: "json_load plain_codec ''[{'' = None"
    by code_simp
  have r4: "load_seen_opinions plain_codec garbled = Inl JSONDecodeError"
    using load_outcomes[where parse = "json_load plain_codec" and nil = "[]" and t = "''[{''"
        and c = plain_codec and w = garbled] a2 bad
    by simp
  have r5: "main plain_codec env_xy garbled = (Crashed JSONDecodeError, garbled)"
    using load_outcomes[where parse = "json_load plain_codec" and nil = "[]"
        and a = "access_of garbled" and c = plain_codec and y = JSONDecodeError
        and e = env_xy and w = garbled] r4
    by simp
  have a3: "access_of stocked = Text (plain_dump [op_x 0])"
    by (simp add: access_of_def stocked_def save_seen_opinions_def plain_codec_def)
  have good: "json_load plain_codec (plain_dump [op_x 0]) = Some [op_x 0]"
    by (simp add: plain_codec_def plain_roundtrip)
  have r6: "load_seen_opinions plain_codec stocked = Inr [op_x 0]"
    using load_outcomes[where parse = "json_load plain_codec" and nil = "[]"
        and t = "plain_dump [op_x 0]" and v = "[op_x 0]" and c = plain_codec and w = stocked] a3 good
    by simp
  have obj: "read_short ''{}'' = Some (JObject [])" and arr: "read_short ''[]'' = Some (JArray [])"
    by (simp_all add: read_short_def)
  have r7: "load_from read_short (JArray []) (Text ''{}'') = Inr (JObject [])"
    using load_outcomes[where parse = read_short and nil = "JArray []" and t = "''{}''" and v = "JObject []"] obj by blast
  have r8: "load_from read_short (JArray []) (Text ''[]'') = Inr (JArray [])"
    using load_outcomes[where parse = read_short and nil = "JArray []" and t = "''[]''" and v = "JArray []"] arr by blast
  show ?thesis
    using a1 r1 r2 r3 a2 bad r4 r5 a3 good r6 obj r7 arr r8 by blast
qed

text \<open>
  The claim as stated knows two ways for \<^verbatim>\<open>load\<close> to end without the stored records,
  the empty sequence for a missing file and the parse error for a malformed one. A state
  path that exists and cannot be opened is a third: \<^verbatim>\<open>exists()\<close> is true, so the
  default is not taken, \<^verbatim>\<open>open\<close> raises, and what leaves \<^verbatim>\<open>load\<close> and ends the run
  is an \<^verbatim>\<open>OSError\<close>, which is no parse error.
\<close>

theorem load_unopenable_counterexample:
  "load_from (json_load plain_codec) [] (Fails OSError) = Inl OSError
   \<and> load_from (json_load plain_codec) [] (Fails OSError) \<noteq> Inr []
   \<and> load_from (json_load plain_codec) [] (Fails OSError) \<noteq> Inl JSONDecodeError
   \<and> main_from plain_codec env_xy (Fails OSError) fresh = (Crashed OSError, fresh)"
  by (simp add: load_from_def main_from_def)

text \<open>
  C10. Every run only grows the store. When the decoder of the library reads back what
  its encoder writes, the list loaded after a run is the list loaded before it followed
  by further records: every record of before is still there, unchanged and at its
  position. A run that does not end in the persisted state, and so also a run that
  starts from a file that cannot be loaded, leaves the file as it was.
\<close>

theorem store_only_grows:
  assumes "inverts c" and "main c e w = (out, w')"
  shows "(\<forall>x. load_seen_opinions c w = Inl x \<longrightarrow> seen_file w' = seen_file w)
       \<and> (\<forall>xs. load_seen_opinions c w = Inr xs \<longrightarrow>
             (\<exists>ys. load_seen_opinions c w' = Inr (xs @ ys)))
       \<and> (out \<noteq> Persisted \<longrightarrow> seen_file w' = seen_file w)"
  using main_shape[OF assms(2)] assms(1)
  by (elim disjE exE conjE) (auto simp: load_seen_opinions_unfold inverts_def diffed_def)

theorem store_only_grows_witness:
  "inverts plain_codec
   \<and> main plain_codec env_xy stocked = (Persisted, snd (main plain_codec env_xy stocked))
   \<and> load_seen_opinions plain_codec stocked = Inr [op_x 0]
   \<and> load_seen_opinions plain_codec (snd (main plain_codec env_xy stocked)) = Inr ([op_x 0] @ [op_y 1])
   \<and> (\<exists>ys. load_seen_opinions plain_codec (snd (main plain_codec env_xy stocked)) = Inr ([op_x 0] @ ys))
   \<and> load_seen_opinions plain_codec garbled = Inl JSONDecodeError
   \<and> fst (main plain_codec env_xy garbled) \<noteq> Persisted
   \<and> seen_file (snd (main plain_codec env_xy garbled)) = seen_file garbled"
proof -
  have out: "fst (main plain_codec env_xy stocked) = Persisted"
    by code_simp
  have run: "main plain_codec env_xy stocked = (Persisted, snd (main plain_codec env_xy stocked))"
    using out by (metis prod.collapse)
  have before: "load_seen_opinions plain_codec stocked = Inr [op_x 0]"
    by code_simp
  have after: "load_seen_opinions plain_codec (snd (main plain_codec env_xy stocked)) = Inr ([op_x 0] @ [op_y 1])"
    by code_simp
  have grown: "\<exists>ys. load_seen_opinions plain_codec (snd (main plain_codec env_xy stocked)) = Inr ([op_x 0] @ ys)"
    using store_only_grows[OF plain_codec_inverts run] before by blast
  have bad: "load_seen_opinions plain_codec garbled = Inl JSONDecodeError"
    by code_simp
  have out2: "fst (main plain_codec env_xy garbled) \<noteq> Persisted"
    by code_simp
  have run2: "main plain_codec env_xy garbled =
      (fst (main plain_codec env_xy garbled), snd (main plain_codec env_xy garbled))"
    by simp
  have kept: "seen_file (snd (main plain_codec env_xy garbled)) = seen_file garbled"
    using store_only_grows[OF plain_codec_inverts run2] bad by blast
  show ?thesis
    using plain_codec_inverts run before after grown bad out2 kept by blast
qed

end
